theory Spec2Isabelle
  imports Complex_Main
begin

section \<open>Python values\<close>

text \<open>
  The program is \<^verbatim>\<open>sappy.py\<close>: a license detector that normalises a candidate text,
  vectorises it together with the license templates of a local directory and returns the
  name of the template with the highest cosine similarity.

  Every exception that the modelled functions can raise is a value of \<open>error\<close>; a
  function that can raise returns \<open>error + 'a\<close>, with \<open>Inl\<close> for the exception.
  \<open>OSError\<close> stands for the exception of \<^verbatim>\<open>listdir\<close> and \<^verbatim>\<open>open\<close> (and its subclasses
  such as \<^verbatim>\<open>FileNotFoundError\<close>).
\<close>

datatype error = OSError | UnicodeDecodeError | TypeError | ValueError | IndexError
  | ZeroDivisionError

text \<open>
  A Python float is not-a-number, an infinity, or a finite number. Only the comparison
  \<^verbatim>\<open>cos > max_similarity\<close> is done by the program itself; it follows IEEE 754: a
  comparison with not-a-number is false. The arithmetic belongs to the libraries and is a
  parameter of the model (see \<open>library\<close> below).
\<close>

datatype pyfloat = NaN | NInf | Num real | PInf

fun float_gt :: "pyfloat \<Rightarrow> pyfloat \<Rightarrow> bool" where
  "float_gt (Num a) (Num b) = (b < a)"
| "float_gt (Num a) NInf = True"
| "float_gt PInf (Num b) = True"
| "float_gt PInf NInf = True"
| "float_gt _ _ = False"

text \<open>
  Strings are lists of characters. The model covers the ASCII range of Python's strings:
  the character classes and case mappings below are those of Python on the code points
  below 128, and a character of a higher code is left alone by all of them.
\<close>

definition ascii_lowercase :: string where
  "ascii_lowercase = ''abcdefghijklmnopqrstuvwxyz''"

definition ascii_uppercase :: string where
  "ascii_uppercase = ''ABCDEFGHIJKLMNOPQRSTUVWXYZ''"

definition digits :: string where
  "digits = ''0123456789''"

text \<open>The regular-expression class \<^verbatim>\<open>\w\<close> (which contains \<^verbatim>\<open>\d\<close> and the underscore).\<close>

definition is_word_char :: "char \<Rightarrow> bool" where
  "is_word_char c = (c \<in> set (ascii_lowercase @ ascii_uppercase @ digits @ ''_''))"

text \<open>
  \<^verbatim>\<open>str.isspace\<close> on ASCII: tab, line feed, vertical tab, form feed, carriage return, the
  separators 28 to 31, and the space.
\<close>

definition is_space :: "char \<Rightarrow> bool" where
  "is_space c = (c \<in> set [CHR 0x09, CHR 0x0A, CHR 0x0B, CHR 0x0C, CHR 0x0D,
                            CHR 0x1C, CHR 0x1D, CHR 0x1E, CHR 0x1F, CHR '' ''])"

definition lower_char :: "char \<Rightarrow> char" where
  "lower_char c = (case map_of (zip ascii_uppercase ascii_lowercase) c of
                     Some d \<Rightarrow> d | None \<Rightarrow> c)"

definition upper_char :: "char \<Rightarrow> char" where
  "upper_char c = (case map_of (zip ascii_lowercase ascii_uppercase) c of
                     Some d \<Rightarrow> d | None \<Rightarrow> c)"

text \<open>\<^verbatim>\<open>s.lower()\<close> and \<^verbatim>\<open>s.upper()\<close>.\<close>

definition lower :: "string \<Rightarrow> string" where
  "lower s = map lower_char s"

definition upper :: "string \<Rightarrow> string" where
  "upper s = map upper_char s"

text \<open>\<^verbatim>\<open>s.strip()\<close>: whitespace is removed at both ends.\<close>

definition strip :: "string \<Rightarrow> string" where
  "strip s = rev (dropWhile is_space (rev (dropWhile is_space s)))"

text \<open>
  \<^verbatim>\<open>s.split(' ')\<close>: the pieces between single spaces, empty pieces included; the empty
  string gives one empty piece.
\<close>

fun split_space :: "string \<Rightarrow> string list" where
  "split_space [] = [[]]"
| "split_space (c # cs) =
     (if c = CHR '' '' then [] # split_space cs
      else (case split_space cs of
              [] \<Rightarrow> [[c]]
            | t # ts \<Rightarrow> (c # t) # ts))"

text \<open>
  \<^verbatim>\<open>s.replace('  ', ' ')\<close>: one pass from the left; each occurrence of two spaces that
  does not overlap the previous one becomes one space, and the scan goes on behind it.
\<close>

fun replace_two_spaces :: "string \<Rightarrow> string" where
  "replace_two_spaces (a # b # cs) =
     (if a = CHR '' '' \<and> b = CHR '' '' then CHR '' '' # replace_two_spaces cs
      else a # replace_two_spaces (b # cs))"
| "replace_two_spaces cs = cs"

text \<open>\<^verbatim>\<open>sub('[^\w\d ]', ' ', document)\<close>: every character outside the class becomes a space.\<close>

definition sub_non_word :: "string \<Rightarrow> string" where
  "sub_non_word document =
     map (\<lambda>c. if is_word_char c \<or> c = CHR '' '' then c else CHR '' '') document"

text \<open>\<^verbatim>\<open>sub('-', ' ', s)\<close>.\<close>

definition sub_hyphen :: "string \<Rightarrow> string" where
  "sub_hyphen s = map (\<lambda>c. if c = CHR ''-'' then CHR '' '' else c) s"

text \<open>\<^verbatim>\<open>name.endswith(suffix)\<close>.\<close>

definition endswith :: "string \<Rightarrow> string \<Rightarrow> bool" where
  "endswith name suffix =
     (length suffix \<le> length name \<and> drop (length name - length suffix) name = suffix)"

text \<open>
  \<^verbatim>\<open>reduce(f, xs)\<close> without an initial value raises \<^verbatim>\<open>TypeError\<close> on an empty sequence;
  with an initial value it is a left fold.
\<close>

fun reduce :: "('a \<Rightarrow> 'a \<Rightarrow> 'a) \<Rightarrow> 'a list \<Rightarrow> error + 'a" where
  "reduce f [] = Inl TypeError"
| "reduce f (x # xs) = Inr (foldl f x xs)"

text \<open>\<^verbatim>\<open>xs[i]\<close> for \<open>i \<ge> 0\<close>, and \<^verbatim>\<open>xs[-1]\<close>.\<close>

definition getitem :: "'a list \<Rightarrow> nat \<Rightarrow> error + 'a" where
  "getitem xs i = (if i < length xs then Inr (xs ! i) else Inl IndexError)"

definition getitem_last :: "'a list \<Rightarrow> error + 'a" where
  "getitem_last xs = (if xs = [] then Inl IndexError else Inr (last xs))"

text \<open>
  For the statements about runs of spaces: \<open>has_space_run n s\<close> holds when \<open>s\<close> contains
  \<open>n\<close> consecutive spaces.
\<close>

fun has_space_run :: "nat \<Rightarrow> string \<Rightarrow> bool" where
  "has_space_run n [] = (n = 0)"
| "has_space_run n (c # cs) = (take n (c # cs) = replicate n (CHR '' '') \<or> has_space_run n cs)"

section \<open>The libraries and the file system\<close>

text \<open>
  The program calls NLTK's Porter stemmer, scikit-learn's \<^verbatim>\<open>TfidfVectorizer\<close>, the product
  of SciPy's sparse rows, \<^verbatim>\<open>math.sqrt\<close> and the float arithmetic of NumPy. None of them is
  part of the repository, so the model takes them as a parameter: a record of functions.
  \<open>'v\<close> is the type of a row of the term-weight matrix.
  \<^item> \<open>stem\<close> is \<^verbatim>\<open>PorterStemmer().stem\<close>;
  \<^item> \<open>fit_transform\<close> is \<^verbatim>\<open>vectorizer.fit_transform\<close>, returning the rows of the matrix;
  \<^item> \<open>row_product\<close> is \<^verbatim>\<open>(v * w.T)[0, 0]\<close>;
  \<^item> \<open>math_sqrt\<close> is \<^verbatim>\<open>sqrt\<close>, \<open>float_mul\<close> is \<^verbatim>\<open>*\<close> and \<open>float_div\<close> is \<^verbatim>\<open>/\<close> on floats.
\<close>

record 'v library =
  stem :: "string \<Rightarrow> string"
  fit_transform :: "string list \<Rightarrow> error + 'v list"
  row_product :: "'v \<Rightarrow> 'v \<Rightarrow> pyfloat"
  math_sqrt :: "pyfloat \<Rightarrow> error + pyfloat"
  float_mul :: "pyfloat \<Rightarrow> pyfloat \<Rightarrow> pyfloat"
  float_div :: "pyfloat \<Rightarrow> pyfloat \<Rightarrow> error + pyfloat"

text \<open>
  The program reads the file system twice: \<^verbatim>\<open>listdir(path)\<close> gives the names of a
  directory's entries in the order of the listing, and \<^verbatim>\<open>open(path, 'r')\<close> followed by
  \<^verbatim>\<open>readlines()\<close> gives the text of a file. Either may raise.
\<close>

record filesystem =
  listdir :: "string \<Rightarrow> error + string list"
  read_text :: "string \<Rightarrow> error + string"

text \<open>\<^verbatim>\<open>f.readlines()\<close> cuts the text behind every line feed.\<close>

fun readlines :: "string \<Rightarrow> string list" where
  "readlines [] = []"
| "readlines (c # cs) =
     (if c = CHR 0x0A then [c] # readlines cs
      else (case readlines cs of
              [] \<Rightarrow> [[c]]
            | l # ls \<Rightarrow> (c # l) # ls))"

section \<open>The program\<close>

definition clean :: "'v library \<Rightarrow> string \<Rightarrow> string" where
  "clean L document =
     (let document1 = sub_non_word document;
          document2 = lower (replace_two_spaces document1);
          cleaned_document =
            foldl (\<lambda>acc token. acc @ '' '' @ stem L token) [] (split_space document2)
      in strip cleaned_document)"

definition prepare_license_file :: "'v library \<Rightarrow> filesystem \<Rightarrow> string \<Rightarrow> error + string" where
  "prepare_license_file L fs filename =
     (case read_text fs filename of
        Inl e \<Rightarrow> Inl e
      | Inr text \<Rightarrow>
          (case reduce (\<lambda>s1 s2. s1 @ s2) (readlines text) of
             Inl e \<Rightarrow> Inl e
           | Inr raw_text \<Rightarrow> Inr (clean L raw_text)))"

definition TEMPLATES_DIR :: string where
  "TEMPLATES_DIR = ''license-templates/''"

text \<open>The body of the loop of \<open>load_license_templates\<close>, over the remaining file names.\<close>

fun load_loop ::
  "'v library \<Rightarrow> filesystem \<Rightarrow> string list \<Rightarrow> string list \<times> string list
     \<Rightarrow> error + (string list \<times> string list)" where
  "load_loop L fs [] (names, licenses) = Inr (names, licenses)"
| "load_loop L fs (lic_fn # rest) (names, licenses) =
     (case prepare_license_file L fs (TEMPLATES_DIR @ lic_fn) of
        Inl e \<Rightarrow> Inl e
      | Inr text \<Rightarrow>
          load_loop L fs rest
            (names @ [sub_hyphen (upper (take (length lic_fn - 4) lic_fn))],
             licenses @ [text]))"

definition load_license_templates ::
  "'v library \<Rightarrow> filesystem \<Rightarrow> error + (string list \<times> string list)" where
  "load_license_templates L fs =
     (case listdir fs TEMPLATES_DIR of
        Inl e \<Rightarrow> Inl e
      | Inr entries \<Rightarrow>
          load_loop L fs (filter (\<lambda>name. endswith name ''.txt'') entries) ([], []))"

definition dot :: "'v library \<Rightarrow> 'v \<Rightarrow> 'v \<Rightarrow> pyfloat" where
  "dot L v w = row_product L v w"

definition cosine_similarity :: "'v library \<Rightarrow> 'v \<Rightarrow> 'v \<Rightarrow> error + pyfloat" where
  "cosine_similarity L v w =
     (case math_sqrt L (dot L v v) of
        Inl e \<Rightarrow> Inl e
      | Inr dist_v \<Rightarrow>
          (case math_sqrt L (dot L w w) of
             Inl e \<Rightarrow> Inl e
           | Inr dist_w \<Rightarrow> float_div L (dot L v w) (float_mul L dist_v dist_w)))"

text \<open>
  The search loop of \<open>detect_license\<close> over the remaining indices; the state is the pair
  \<open>(index_of_most_similar_license, max_similarity)\<close>.
\<close>

fun search_loop ::
  "'v library \<Rightarrow> 'v \<Rightarrow> 'v list \<Rightarrow> nat list \<Rightarrow> nat \<times> pyfloat \<Rightarrow> error + (nat \<times> pyfloat)" where
  "search_loop L vectorized_document tfidf [] st = Inr st"
| "search_loop L vectorized_document tfidf (i # rest) (index_of_most_similar_license, max_similarity) =
     (case getitem tfidf i of
        Inl e \<Rightarrow> Inl e
      | Inr next_license \<Rightarrow>
          (case cosine_similarity L vectorized_document next_license of
             Inl e \<Rightarrow> Inl e
           | Inr cos_i \<Rightarrow>
               search_loop L vectorized_document tfidf rest
                 (if float_gt cos_i max_similarity then (i, cos_i)
                  else (index_of_most_similar_license, max_similarity))))"

definition detect_license :: "'v library \<Rightarrow> filesystem \<Rightarrow> string \<Rightarrow> bool \<Rightarrow> error + string" where
  "detect_license L fs document cleaned =
     (case load_license_templates L fs of
        Inl e \<Rightarrow> Inl e
      | Inr (names, licenses) \<Rightarrow>
          (let cleaned_doc = (if cleaned then document else clean L document) in
           case fit_transform L (licenses @ [cleaned_doc]) of
             Inl e \<Rightarrow> Inl e
           | Inr tfidf \<Rightarrow>
               (case getitem_last tfidf of
                  Inl e \<Rightarrow> Inl e
                | Inr vectorized_document \<Rightarrow>
                    (case search_loop L vectorized_document tfidf [0..<length licenses]
                            (0, Num (- 1)) of
                       Inl e \<Rightarrow> Inl e
                     | Inr (index_of_most_similar_license, max_similarity) \<Rightarrow>
                         getitem names index_of_most_similar_license))))"

section \<open>A reference instance of the libraries\<close>

text \<open>
  Modelled from the spec: the vectorizer and the arithmetic of the libraries, which are
  imported by the program and not part of the repository. Section 4.3 of the specification
  describes them: a joint vocabulary of all template texts and the candidate text, term
  frequency times inverse document frequency with add-one smoothing, every row normalised
  to unit length, and the cosine as a quotient of dot products. The formulas are those of
  scikit-learn's documentation for the options that the program passes: a token is a run
  of two or more word characters of the lower-cased text, the tokens of the stop-word list
  are dropped, an empty vocabulary raises \<^verbatim>\<open>ValueError\<close>, the weight of term \<open>t\<close> in a
  document is its count times \<open>ln ((1 + n) / (1 + df t)) + 1\<close>, and a row of norm zero is
  left as it is.

  The instance is an idealisation in three respects. It serves to evaluate the program on
  concrete inputs; the theorems on the loader, the index, the tie-break, the failures and
  the determinism hold for every library, and the theorems on the empty candidate and on
  the exact match hold for every library with this vectorizer and arithmetic, whatever its
  stemmer.
  \<^item> Arithmetic is exact: a finite float is a real number and no operation rounds.
    \<^verbatim>\<open>math.sqrt\<close> raises \<^verbatim>\<open>ValueError\<close> on a negative argument; the quotient is NumPy's,
    which returns not-a-number or an infinity where the divisor is zero and does not raise.
  \<^item> The columns of a row stand in the order in which the terms first occur, where
    scikit-learn sorts them; a dot product does not depend on the order of the columns.
  \<^item> The stemmer returns the token as it is. NLTK's stemmer returns every token of at most
    two characters unchanged, and the evaluations below stem no longer token. The list of
    stop words is a parameter; no evaluation below has a stop word among its tokens.
\<close>

fun word_runs :: "string \<Rightarrow> string \<Rightarrow> string list" where
  "word_runs cur [] = (if cur = [] then [] else [cur])"
| "word_runs cur (c # cs) =
     (if is_word_char c then word_runs (cur @ [c]) cs
      else if cur = [] then word_runs [] cs
      else cur # word_runs [] cs)"

definition tokenize :: "string list \<Rightarrow> string \<Rightarrow> string list" where
  "tokenize stop_words doc =
     filter (\<lambda>t. t \<notin> set stop_words)
       (filter (\<lambda>t. 2 \<le> length t) (word_runs [] (lower doc)))"

definition idf :: "nat \<Rightarrow> nat \<Rightarrow> real" where
  "idf n df = ln ((1 + real n) / (1 + real df)) + 1"

definition l2_normalize :: "real list \<Rightarrow> real list" where
  "l2_normalize ws =
     (let norm = sqrt (sum_list (map (\<lambda>x. x * x) ws))
      in if norm = 0 then ws else map (\<lambda>x. x / norm) ws)"

definition tfidf_fit_transform :: "string list \<Rightarrow> string list \<Rightarrow> error + real list list" where
  "tfidf_fit_transform stop_words docs =
     (let tokenized = map (tokenize stop_words) docs;
          vocabulary = remdups (concat tokenized)
      in if vocabulary = [] then Inl ValueError
         else Inr (map (\<lambda>d. l2_normalize
                      (map (\<lambda>t. real (count_list d t)
                                  * idf (length docs)
                                      (length (filter (\<lambda>d'. t \<in> set d') tokenized)))
                           vocabulary))
                    tokenized))"

text \<open>
  Modelled from the spec: the joint vocabulary and one row of the matrix, as they occur in
  \<open>tfidf_fit_transform\<close>, under names of their own for the proofs.
\<close>

definition vocabulary :: "string list \<Rightarrow> string list \<Rightarrow> string list" where
  "vocabulary stop_words docs = remdups (concat (map (tokenize stop_words) docs))"

definition tfidf_row :: "string list \<Rightarrow> string list \<Rightarrow> string list \<Rightarrow> real list" where
  "tfidf_row stop_words docs d =
     l2_normalize
       (map (\<lambda>t. real (count_list d t)
                   * idf (length docs)
                       (length (filter (\<lambda>d'. t \<in> set d') (map (tokenize stop_words) docs))))
          (vocabulary stop_words docs))"

definition exact_row_product :: "real list \<Rightarrow> real list \<Rightarrow> pyfloat" where
  "exact_row_product v w = Num (sum_list (map2 (*) v w))"

fun exact_sqrt :: "pyfloat \<Rightarrow> error + pyfloat" where
  "exact_sqrt (Num x) = (if x < 0 then Inl ValueError else Inr (Num (sqrt x)))"
| "exact_sqrt NInf = Inl ValueError"
| "exact_sqrt PInf = Inr PInf"
| "exact_sqrt NaN = Inr NaN"

fun exact_mul :: "pyfloat \<Rightarrow> pyfloat \<Rightarrow> pyfloat" where
  "exact_mul (Num a) (Num b) = Num (a * b)"
| "exact_mul NaN _ = NaN"
| "exact_mul _ NaN = NaN"
| "exact_mul (Num a) PInf = (if a = 0 then NaN else if 0 < a then PInf else NInf)"
| "exact_mul (Num a) NInf = (if a = 0 then NaN else if 0 < a then NInf else PInf)"
| "exact_mul PInf (Num b) = (if b = 0 then NaN else if 0 < b then PInf else NInf)"
| "exact_mul NInf (Num b) = (if b = 0 then NaN else if 0 < b then NInf else PInf)"
| "exact_mul PInf PInf = PInf"
| "exact_mul PInf NInf = NInf"
| "exact_mul NInf PInf = NInf"
| "exact_mul NInf NInf = PInf"

fun numpy_div :: "pyfloat \<Rightarrow> pyfloat \<Rightarrow> error + pyfloat" where
  "numpy_div (Num a) (Num b) =
     Inr (if b = 0 then (if a = 0 then NaN else if 0 < a then PInf else NInf)
          else Num (a / b))"
| "numpy_div NaN _ = Inr NaN"
| "numpy_div _ NaN = Inr NaN"
| "numpy_div (Num a) PInf = Inr (Num 0)"
| "numpy_div (Num a) NInf = Inr (Num 0)"
| "numpy_div PInf (Num b) = Inr (if 0 \<le> b then PInf else NInf)"
| "numpy_div NInf (Num b) = Inr (if 0 \<le> b then NInf else PInf)"
| "numpy_div PInf PInf = Inr NaN"
| "numpy_div PInf NInf = Inr NaN"
| "numpy_div NInf PInf = Inr NaN"
| "numpy_div NInf NInf = Inr NaN"

definition exact_library :: "string list \<Rightarrow> (real list) library" where
  "exact_library stop_words =
     \<lparr> stem = (\<lambda>token. token),
       fit_transform = tfidf_fit_transform stop_words,
       row_product = exact_row_product,
       math_sqrt = exact_sqrt,
       float_mul = exact_mul,
       float_div = numpy_div \<rparr>"

text \<open>
  A library has the reference vectorizer and arithmetic when all its functions but the
  stemmer are those of the reference instance.
\<close>

definition reference_arithmetic :: "string list \<Rightarrow> (real list) library \<Rightarrow> bool" where
  "reference_arithmetic stop_words L =
     (fit_transform L = tfidf_fit_transform stop_words
      \<and> row_product L = exact_row_product
      \<and> math_sqrt L = exact_sqrt
      \<and> float_mul L = exact_mul
      \<and> float_div L = numpy_div)"

definition stop_words_sample :: "string list" where
  "stop_words_sample = [''the'', ''and'', ''of'', ''to'', ''in'', ''is'']"

definition reference_library :: "(real list) library" where
  "reference_library = exact_library stop_words_sample"

subsection \<open>Template directories used in the evaluations\<close>

text \<open>Two templates with the same text under different names, and an entry that is no template.\<close>

definition two_templates :: filesystem where
  "two_templates =
     \<lparr> listdir = (\<lambda>path. if path = ''license-templates/''
                         then Inr [''cc-by.txt'', ''README'', ''qt.txt'']
                         else Inl OSError),
       read_text = (\<lambda>path. if path = ''license-templates/cc-by.txt'' then Inr ''cc''
                           else if path = ''license-templates/qt.txt'' then Inr ''cc''
                           else Inl OSError) \<rparr>"

text \<open>The same directory on a file system that differs outside the templates.\<close>

definition two_templates_elsewhere :: filesystem where
  "two_templates_elsewhere =
     \<lparr> listdir = (\<lambda>path. if path = ''license-templates/''
                         then Inr [''cc-by.txt'', ''README'', ''qt.txt'']
                         else Inr []),
       read_text = (\<lambda>path. if path = ''license-templates/cc-by.txt'' then Inr ''cc''
                           else if path = ''license-templates/qt.txt'' then Inr ''cc''
                           else Inr ''read me'') \<rparr>"


text \<open>One template whose text is a lone hyphen, so that its normalised text has no token.\<close>

definition blank_template :: filesystem where
  "blank_template =
     \<lparr> listdir = (\<lambda>path. if path = ''license-templates/'' then Inr [''blank.txt'']
                         else Inl OSError),
       read_text = (\<lambda>path. if path = ''license-templates/blank.txt'' then Inr ''-''
                           else Inl OSError) \<rparr>"

text \<open>One template file that is empty.\<close>

definition empty_template_file :: filesystem where
  "empty_template_file =
     \<lparr> listdir = (\<lambda>path. if path = ''license-templates/'' then Inr [''mit.txt'']
                         else Inl OSError),
       read_text = (\<lambda>path. if path = ''license-templates/mit.txt'' then Inr []
                           else Inl OSError) \<rparr>"

text \<open>A directory without a template, and a file system without the directory.\<close>

definition no_templates :: filesystem where
  "no_templates =
     \<lparr> listdir = (\<lambda>path. if path = ''license-templates/'' then Inr [''README'']
                         else Inl OSError),
       read_text = (\<lambda>path. if path = ''license-templates/README'' then Inr ''read me''
                           else Inl OSError) \<rparr>"

definition missing_directory :: filesystem where
  "missing_directory = \<lparr> listdir = (\<lambda>path. Inl OSError), read_text = (\<lambda>path. Inl OSError) \<rparr>"

section \<open>Evaluating the program\<close>

text \<open>
  The evaluations of this section run the program on the reference instance; the theorems
  of the later sections use them as concrete inputs.
\<close>

lemmas string_defs = sub_non_word_def is_word_char_def ascii_lowercase_def ascii_uppercase_def
  digits_def lower_def lower_char_def upper_def upper_char_def strip_def is_space_def
  sub_hyphen_def endswith_def TEMPLATES_DIR_def

lemma reference_library_sel:
  "stem reference_library = (\<lambda>token. token)"
  "fit_transform reference_library = tfidf_fit_transform stop_words_sample"
  "row_product reference_library = exact_row_product"
  "math_sqrt reference_library = exact_sqrt"
  "float_mul reference_library = exact_mul"
  "float_div reference_library = numpy_div"
  by (simp_all add: reference_library_def exact_library_def)

lemma reference_library_arithmetic: "reference_arithmetic stop_words_sample reference_library"
  by (simp add: reference_arithmetic_def reference_library_sel)

lemma clean_cc: "clean reference_library ''cc'' = ''cc''"
  by (simp add: clean_def reference_library_sel string_defs)

lemma clean_empty: "clean reference_library [] = []"
  by (simp add: clean_def reference_library_sel string_defs)


lemma load_two_templates:
  "load_license_templates reference_library two_templates
     = Inr ([''CC BY'', ''QT''], [''cc'', ''cc''])"
  by (simp add: load_license_templates_def two_templates_def prepare_license_file_def
        clean_def reference_library_sel string_defs)


lemma load_blank_template:
  "load_license_templates reference_library blank_template = Inr ([''BLANK''], [[]])"
  by (simp add: load_license_templates_def blank_template_def prepare_license_file_def
        clean_def reference_library_sel string_defs)

lemma load_no_templates:
  "load_license_templates reference_library no_templates = Inr ([], [])"
  by (simp add: load_license_templates_def no_templates_def string_defs)

lemma fit_three_cc:
  "tfidf_fit_transform stop_words_sample [''cc'', ''cc'', ''cc''] = Inr [[1], [1], [1]]"
  by (simp add: tfidf_fit_transform_def tokenize_def string_defs stop_words_sample_def
        idf_def l2_normalize_def)

lemma fit_one_cc: "tfidf_fit_transform stop_words_sample [''cc''] = Inr [[1]]"
  by (simp add: tfidf_fit_transform_def tokenize_def string_defs stop_words_sample_def
        idf_def l2_normalize_def)

lemma fit_no_token: "tfidf_fit_transform stop_words_sample [[], []] = Inl ValueError"
  by (simp add: tfidf_fit_transform_def tokenize_def string_defs)

lemma cosine_unit: "cosine_similarity reference_library [1] [1] = Inr (Num 1)"
  by (simp add: cosine_similarity_def dot_def reference_library_sel exact_row_product_def)

lemma loop_two_templates:
  "search_loop reference_library [1] [[1], [1], [1]] [0..<length [''cc'', ''cc'']] (0, Num (- 1))
     = Inr (0, Num 1)"
  by (simp add: upt_rec getitem_def cosine_unit)

lemma detect_two_templates:
  "detect_license reference_library two_templates ''cc'' False = Inr ''CC BY''"
  by (simp add: detect_license_def load_two_templates fit_three_cc clean_cc cosine_unit
        reference_library_sel getitem_def getitem_last_def upt_rec)







section \<open>Floats and the search loop\<close>

text \<open>
  The comparison of floats is a strict order on the floats that are numbers or infinities,
  and any two of them that are different are ordered.
\<close>

lemma float_gt_not_NaN: "float_gt a b \<Longrightarrow> a \<noteq> NaN \<and> b \<noteq> NaN"
  by (cases a; cases b) auto

lemma float_gt_trichotomy:
  "a \<noteq> NaN \<Longrightarrow> b \<noteq> NaN \<Longrightarrow> float_gt a b \<or> a = b \<or> float_gt b a"
  by (cases a; cases b) auto

lemma float_gt_trans: "float_gt a b \<Longrightarrow> float_gt b c \<Longrightarrow> float_gt a c"
  by (cases a; cases b; cases c) auto

lemma float_gt_irrefl: "\<not> float_gt a a"
  by (cases a) auto

text \<open>
  The loop runs through its indices from the left. It returns when every row exists and
  every similarity is computed; the index it returns is the initial one or one of the
  indices it ran through; it keeps its state when no similarity is above the running
  maximum; and a maximum it returns is the initial one or the similarity of the index it
  returns with it.
\<close>

lemma search_loop_append:
  "search_loop L vd tfidf (xs @ ys) st =
     (case search_loop L vd tfidf xs st of Inl e \<Rightarrow> Inl e
      | Inr st' \<Rightarrow> search_loop L vd tfidf ys st')"
  by (induction xs arbitrary: st) (auto simp: split_beta split: sum.splits prod.splits)

lemma search_loop_index:
  "search_loop L vd tfidf xs (idx, mx) = Inr (idx', mx') \<Longrightarrow> idx' = idx \<or> idx' \<in> set xs"
  by (induction xs arbitrary: idx mx) (auto split: sum.splits if_splits)

lemma search_loop_keeps:
  assumes "\<forall>j\<in>set xs. j < length tfidf \<and> (\<exists>c. cosine_similarity L vd (tfidf ! j) = Inr c \<and> \<not> float_gt c mx)"
  shows "search_loop L vd tfidf xs (idx, mx) = Inr (idx, mx)"
  using assms by (induction xs) (auto simp: getitem_def)

lemma search_loop_returns:
  assumes "\<forall>j\<in>set xs. j < length tfidf \<and> (\<exists>c. cosine_similarity L vd (tfidf ! j) = Inr c)"
  shows "\<exists>idx' mx'. search_loop L vd tfidf xs (idx, mx) = Inr (idx', mx')"
  using assms by (induction xs arbitrary: idx mx) (auto simp: getitem_def)

lemma search_loop_maximum:
  assumes "\<forall>j\<in>set xs. j < length tfidf \<and> cosine_similarity L vd (tfidf ! j) = Inr (score j)"
    and "search_loop L vd tfidf xs (idx, mx) = Inr (idx', mx')"
  shows "(idx', mx') = (idx, mx) \<or> (idx' \<in> set xs \<and> mx' = score idx' \<and> mx' \<noteq> NaN)"
  using assms
proof (induction xs arbitrary: idx mx)
  case Nil
  then show ?case by simp
next
  case (Cons j xs)
  show ?case
  proof (cases "float_gt (score j) mx")
    case True
    with Cons.prems have "search_loop L vd tfidf xs (j, score j) = Inr (idx', mx')"
      by (simp add: getitem_def)
    with Cons.IH[of j "score j"] Cons.prems(1) True show ?thesis
      by (auto dest: float_gt_not_NaN)
  next
    case False
    with Cons.prems have "search_loop L vd tfidf xs (idx, mx) = Inr (idx', mx')"
      by (simp add: getitem_def)
    with Cons.IH[of idx mx] Cons.prems(1) show ?thesis by auto
  qed
qed

lemma search_loop_first_maximal:
  assumes scores: "\<forall>j<n. j < length tfidf \<and> cosine_similarity L vd (tfidf ! j) = Inr (score j)"
    and i: "i < n"
    and above: "float_gt (score i) (Num (- 1))"
    and maximal: "\<forall>j<n. \<not> float_gt (score j) (score i)"
    and first: "\<forall>j<i. score j \<noteq> score i"
  shows "search_loop L vd tfidf [0..<n] (0, Num (- 1)) = Inr (i, score i)"
proof -
  have split: "[0..<n] = [0..<i] @ i # [Suc i..<n]"
    using i by (metis less_imp_le_nat upt_add_eq_append upt_conv_Cons zero_le le_add_diff_inverse plus_nat.add_0)
  obtain idx1 mx1 where before: "search_loop L vd tfidf [0..<i] (0, Num (- 1)) = Inr (idx1, mx1)"
    using search_loop_returns[of "[0..<i]" tfidf L vd 0 "Num (- 1)"] scores i by auto
  have "float_gt (score i) mx1"
  proof -
    from search_loop_maximum[OF _ before, of score] scores i
    have "(idx1, mx1) = (0, Num (- 1)) \<or> (idx1 \<in> set [0..<i] \<and> mx1 = score idx1 \<and> mx1 \<noteq> NaN)"
      by auto
    then show ?thesis
    proof
      assume "(idx1, mx1) = (0, Num (- 1))"
      with above show ?thesis by simp
    next
      assume h: "idx1 \<in> set [0..<i] \<and> mx1 = score idx1 \<and> mx1 \<noteq> NaN"
      then have "idx1 < i" by simp
      with first maximal i have "score idx1 \<noteq> score i" "\<not> float_gt (score idx1) (score i)"
        by auto
      moreover have "score i \<noteq> NaN" using above float_gt_not_NaN by blast
      ultimately show ?thesis using h float_gt_trichotomy[of "score i" "score idx1"] by auto
    qed
  qed
  then have step: "search_loop L vd tfidf [i] (idx1, mx1) = Inr (i, score i)"
    using scores i by (simp add: getitem_def)
  have rest: "search_loop L vd tfidf [Suc i..<n] (i, score i) = Inr (i, score i)"
    by (rule search_loop_keeps) (use scores maximal in auto)
  have "search_loop L vd tfidf [0..<n] (0, Num (- 1))
          = search_loop L vd tfidf ([0..<i] @ [i] @ [Suc i..<n]) (0, Num (- 1))"
    using split by simp
  also have "\<dots> = Inr (i, score i)"
    unfolding search_loop_append by (simp only: before step rest sum.case)
  finally show ?thesis .
qed

section \<open>The normaliser\<close>

text \<open>
  Claim C2 (the output of the normaliser has no character outside \<open>[a-z0-9 ]\<close>) fails on
  the code: the class \<^verbatim>\<open>[^\w\d ]\<close> does not match the underscore, since \<^verbatim>\<open>\w\<close> contains it, so
  an underscore passes through \<open>clean\<close>, although the docstring of \<open>clean\<close> says that it
  removes all punctuation. The stemmer sees the one-character token \<^verbatim>\<open>_\<close> and returns it.
\<close>

theorem clean_keeps_underscore: "clean reference_library ''_'' = ''_''"
  by (simp add: clean_def reference_library_sel string_defs)

text \<open>
  The pass over the double spaces turns a run of \<open>n\<close> spaces into a run of \<open>(n + 1) div 2\<close>
  spaces: every pair becomes one space and a last single space stays.
\<close>

lemma replace_two_spaces_even_odd:
  "replace_two_spaces (replicate (2 * k) (CHR '' '')) = replicate k (CHR '' '')
   \<and> replace_two_spaces (replicate (Suc (2 * k)) (CHR '' '')) = replicate (Suc k) (CHR '' '')"
  by (induction k) auto

lemma replace_two_spaces_run:
  "replace_two_spaces (replicate n (CHR '' '')) = replicate ((n + 1) div 2) (CHR '' '')"
proof (cases "even n")
  case True
  then obtain k where "n = 2 * k" by (auto elim: evenE)
  then show ?thesis using replace_two_spaces_even_odd[of k] by simp
next
  case False
  then obtain k where "n = Suc (2 * k)" by (auto elim: oddE)
  then show ?thesis using replace_two_spaces_even_odd[of k] by simp
qed

text \<open>
  Claim C3: the collapse of double spaces is one pass from the left over the occurrences
  that do not overlap, not an iteration to a fixed point: a run of \<open>n\<close> spaces becomes a run
  of \<open>(n + 1) div 2\<close> spaces, and there is an input with a run of three spaces whose
  normalised text still has a run of two spaces. The stemmer is assumed to return the
  empty token and the tokens \<^verbatim>\<open>a\<close> and \<^verbatim>\<open>b\<close> as they are (NLTK's stemmer returns every token of
  at most two characters unchanged).
\<close>

theorem clean_keeps_double_space:
  assumes "stem L [] = []" and "stem L ''a'' = ''a''" and "stem L ''b'' = ''b''"
  shows "replace_two_spaces (replicate n (CHR '' '')) = replicate ((n + 1) div 2) (CHR '' '')
       \<and> has_space_run 3 ''a   b''
       \<and> clean L ''a   b'' = ''a  b''
       \<and> has_space_run 2 (clean L ''a   b'')"
proof -
  have "clean L ''a   b'' = ''a  b''"
    using assms by (simp add: clean_def string_defs)
  then show ?thesis by (simp add: replace_two_spaces_run eval_nat_numeral)
qed

text \<open>Witness for C3: the reference instance, and a run of three spaces.\<close>

theorem clean_keeps_double_space_witness:
  "stem reference_library [] = [] \<and> stem reference_library ''a'' = ''a''
   \<and> stem reference_library ''b'' = ''b''
   \<and> replace_two_spaces (replicate 3 (CHR '' '')) = replicate ((3 + 1) div 2) (CHR '' '')
   \<and> has_space_run 3 ''a   b''
   \<and> clean reference_library ''a   b'' = ''a  b''
   \<and> has_space_run 2 (clean reference_library ''a   b'')"
proof -
  have s: "stem reference_library [] = []" "stem reference_library ''a'' = ''a''"
    "stem reference_library ''b'' = ''b''"
    by (simp_all add: reference_library_sel)
  from clean_keeps_double_space[OF s, of 3] s show ?thesis by blast
qed

subsection \<open>Normalising twice\<close>

text \<open>
  Runs of two and of three spaces, pattern by pattern. The pass over the double spaces
  leaves no run of two spaces when its input has no run of three, and lower-casing
  neither makes nor removes a space.
\<close>

lemma has_space_run_2_simps:
  "has_space_run 2 [] = False"
  "has_space_run 2 [a] = False"
  "has_space_run 2 (a # b # cs) = ((a = CHR '' '' \<and> b = CHR '' '') \<or> has_space_run 2 (b # cs))"
  by (auto simp: eval_nat_numeral)

lemma has_space_run_3_simps:
  "has_space_run 3 [] = False"
  "has_space_run 3 [a] = False"
  "has_space_run 3 [a, b] = False"
  "has_space_run 3 (a # b # c # cs) =
     ((a = CHR '' '' \<and> b = CHR '' '' \<and> c = CHR '' '') \<or> has_space_run 3 (b # c # cs))"
  by (auto simp: eval_nat_numeral)

lemma has_space_run_2_Cons:
  "has_space_run 2 (c # s) = ((c = CHR '' '' \<and> s \<noteq> [] \<and> hd s = CHR '' '') \<or> has_space_run 2 s)"
  by (cases s) (auto simp: has_space_run_2_simps simp del: has_space_run.simps)

lemma replace_two_spaces_Nil: "replace_two_spaces s = [] \<longleftrightarrow> s = []"
  by (induction s rule: replace_two_spaces.induct) auto

lemma hd_replace_two_spaces: "hd (replace_two_spaces s) = hd s"
  by (induction s rule: replace_two_spaces.induct) auto

lemma replace_two_spaces_no_double:
  "\<not> has_space_run 3 s \<Longrightarrow> \<not> has_space_run 2 (replace_two_spaces s)"
proof (induction s rule: replace_two_spaces.induct)
  case (1 a b cs)
  show ?case
  proof (cases "a = CHR '' '' \<and> b = CHR '' ''")
    case True
    with "1.prems" have start: "cs = [] \<or> hd cs \<noteq> CHR '' ''" and rest: "\<not> has_space_run 3 cs"
      by (cases cs; cases "tl cs"; auto simp: has_space_run_3_simps simp del: has_space_run.simps)+
    from "1.IH"(1)[OF True rest] start True show ?thesis
      by (auto simp: has_space_run_2_Cons replace_two_spaces_Nil hd_replace_two_spaces
            simp del: has_space_run.simps)
  next
    case False
    with "1.prems" have "\<not> has_space_run 3 (b # cs)"
      by (cases cs) (auto simp: has_space_run_3_simps simp del: has_space_run.simps)
    from "1.IH"(2)[OF False this] False show ?thesis
      by (auto simp: has_space_run_2_Cons hd_replace_two_spaces replace_two_spaces_Nil
            simp del: has_space_run.simps)
  qed
qed (auto simp: has_space_run_2_simps simp del: has_space_run.simps)

lemma lower_char_space: "lower_char c = CHR '' '' \<longleftrightarrow> c = CHR '' ''"
proof (cases "map_of (zip ascii_uppercase ascii_lowercase) c")
  case None
  then show ?thesis by (simp add: lower_char_def)
next
  case (Some d)
  then have "d \<in> set ascii_lowercase"
    by (meson map_of_SomeD set_zip_rightD)
  then have "d \<noteq> CHR '' ''" by (auto simp: ascii_lowercase_def)
  moreover from Some have "c \<in> set ascii_uppercase"
    by (meson map_of_SomeD set_zip_leftD)
  then have "c \<noteq> CHR '' ''" by (auto simp: ascii_uppercase_def)
  ultimately show ?thesis using Some by (simp add: lower_char_def)
qed

lemma has_space_run_2_lower: "has_space_run 2 (lower s) = has_space_run 2 s"
  by (induction s)
    (auto simp: lower_def has_space_run_2_Cons lower_char_space hd_map
       simp del: has_space_run.simps)

text \<open>
  A text without a run of two spaces splits into tokens of which only the first and the
  last can be empty.
\<close>

lemma split_space_not_Nil: "split_space s \<noteq> []"
  by (cases s) (auto split: list.splits)

lemma split_space_interior:
  "\<not> has_space_run 2 z \<Longrightarrow>
     [] \<notin> set (butlast (tl (split_space z)))
     \<and> (z \<noteq> [] \<and> hd z \<noteq> CHR '' '' \<longrightarrow> hd (split_space z) \<noteq> [])"
proof (induction z)
  case Nil
  then show ?case by simp
next
  case (Cons c cs)
  from Cons.prems have rest: "\<not> has_space_run 2 cs"
    by (simp add: has_space_run_2_Cons del: has_space_run.simps)
  note IH = Cons.IH[OF rest]
  show ?case
  proof (cases "c = CHR '' ''")
    case True
    with Cons.prems have start: "cs = [] \<or> hd cs \<noteq> CHR '' ''"
      by (auto simp: has_space_run_2_Cons simp del: has_space_run.simps)
    obtain h r where hr: "split_space cs = h # r"
      using split_space_not_Nil[of cs] by (cases "split_space cs") auto
    have "[] \<notin> set (butlast (split_space cs))"
    proof (cases "cs = []")
      case True
      then show ?thesis by simp
    next
      case False
      with start IH hr have "h \<noteq> []" by auto
      moreover from IH hr have "[] \<notin> set (butlast r)" by simp
      ultimately show ?thesis using hr by auto
    qed
    with True show ?thesis by simp
  next
    case False
    with IH show ?thesis by (auto split: list.splits)
  qed
qed

text \<open>
  \<open>strip\<close> removes the whitespace around a text that begins and ends with other
  characters. The fold of \<open>clean\<close> puts a space before every stemmed token, so for words
  that are not empty and have no whitespace, stripping gives the words with single spaces
  between them, written here as the tail of the words with a space before each.
\<close>

lemma strip_core:
  assumes "\<forall>c\<in>set pre. is_space c" and "\<forall>c\<in>set post. is_space c"
    and "m = [] \<or> (\<not> is_space (hd m) \<and> \<not> is_space (last m))"
  shows "strip (pre @ m @ post) = m"
proof (cases "m = []")
  case True
  have "\<forall>c\<in>set (pre @ post). is_space c"
    using assms(1,2) by auto
  then have "dropWhile is_space (pre @ post) = []"
    by (simp only: dropWhile_eq_Nil_conv)
  then have "strip (pre @ post) = []"
    unfolding strip_def by (simp only: rev.simps dropWhile.simps)
  with True show ?thesis by simp
next
  case False
  with assms(3) have hd: "\<not> is_space (hd m)" and last: "\<not> is_space (last m)" by auto
  from False hd have 1: "dropWhile is_space (pre @ m @ post) = m @ post"
    using assms(1) by (cases m) (auto simp: dropWhile_append)
  from False last have 2: "dropWhile is_space (rev post @ rev m) = rev m"
    using assms(2) by (cases "rev m") (auto simp: dropWhile_append last_rev hd_rev)
  show ?thesis by (simp add: strip_def 1 2)
qed

lemma foldl_stem:
  "foldl (\<lambda>acc token. acc @ CHR '' '' # stem L token) a ts
     = a @ concat (map (\<lambda>t. CHR '' '' # stem L t) ts)"
  by (induction ts arbitrary: a) auto

lemma clean_eq:
  "clean L x = strip (concat (map (\<lambda>t. CHR '' '' # stem L t)
                 (split_space (lower (replace_two_spaces (sub_non_word x))))))"
  by (simp add: clean_def foldl_stem)

lemma last_spaced_words:
  "ws \<noteq> [] \<Longrightarrow> last ws \<noteq> [] \<Longrightarrow> last (concat (map ((#) (CHR '' '')) ws)) = last (last ws)"
  by (induction ws rule: rev_induct) auto

lemma strip_words:
  assumes words: "\<forall>w\<in>set ws. w \<noteq> [] \<and> (\<forall>c\<in>set w. \<not> is_space c)"
    and "\<forall>c\<in>set pre. is_space c" and "\<forall>c\<in>set post. is_space c"
  shows "strip (pre @ concat (map ((#) (CHR '' '')) ws) @ post)
           = tl (concat (map ((#) (CHR '' '')) ws))"
proof (cases ws)
  case Nil
  with strip_core[of pre post "[]"] assms show ?thesis by simp
next
  case (Cons w ws')
  let ?m = "tl (concat (map ((#) (CHR '' '')) ws))"
  have sp: "is_space (CHR '' '')" by (simp add: is_space_def)
  from Cons words have w: "w \<noteq> []" "\<not> is_space (hd w)" by auto
  have m: "concat (map ((#) (CHR '' '')) ws) = CHR '' '' # ?m" using Cons by simp
  have "?m \<noteq> []" using Cons w by simp
  moreover have "hd ?m = hd w" using Cons w by simp
  moreover have "last ?m = last (last ws)"
  proof -
    have "last (concat (map ((#) (CHR '' '')) ws)) = last (last ws)"
      by (rule last_spaced_words) (use Cons words in auto)
    with m \<open>?m \<noteq> []\<close> show ?thesis by (metis last_ConsR)
  qed
  moreover have "\<not> is_space (last (last ws))"
    using words Cons by (metis last_in_set list.distinct(1))
  ultimately have core: "?m = [] \<or> (\<not> is_space (hd ?m) \<and> \<not> is_space (last ?m))"
    using w by simp
  have "strip ((pre @ [CHR '' '']) @ ?m @ post) = ?m"
    by (rule strip_core) (use assms sp core in auto)
  then show ?thesis by (simp add: Cons)
qed

text \<open>
  Words with single spaces between them split into these words again, and the pass over
  the double spaces does not change them.
\<close>

lemma split_space_word: "CHR '' '' \<notin> set w \<Longrightarrow> split_space w = [w]"
  by (induction w) auto

lemma split_space_word_space:
  "CHR '' '' \<notin> set w \<Longrightarrow> split_space (w @ CHR '' '' # s) = w # split_space s"
  by (induction w) auto

lemma split_space_words:
  assumes "ws \<noteq> []" and "\<forall>w\<in>set ws. CHR '' '' \<notin> set w"
  shows "split_space (tl (concat (map ((#) (CHR '' '')) ws))) = ws"
  using assms
proof (induction ws rule: list_nonempty_induct)
  case (single w)
  then show ?case by (simp add: split_space_word)
next
  case (cons w ws)
  then obtain v vs where "ws = v # vs" by (cases ws) auto
  with cons show ?case by (simp add: split_space_word_space)
qed

lemma replace_two_spaces_non_space:
  "c \<noteq> CHR '' '' \<Longrightarrow> replace_two_spaces (c # s) = c # replace_two_spaces s"
  by (cases s) auto

lemma replace_two_spaces_word:
  "CHR '' '' \<notin> set w \<Longrightarrow> replace_two_spaces (w @ s) = w @ replace_two_spaces s"
  by (induction w) (auto simp: replace_two_spaces_non_space)

lemma replace_two_spaces_space_word:
  "w \<noteq> [] \<Longrightarrow> CHR '' '' \<notin> set w \<Longrightarrow>
     replace_two_spaces (CHR '' '' # w @ s) = CHR '' '' # w @ replace_two_spaces s"
  by (cases w) (auto simp: replace_two_spaces_non_space replace_two_spaces_word)

lemma replace_two_spaces_spaced_words:
  "\<forall>w\<in>set ws. w \<noteq> [] \<and> CHR '' '' \<notin> set w \<Longrightarrow>
     replace_two_spaces (concat (map ((#) (CHR '' '')) ws)) = concat (map ((#) (CHR '' '')) ws)"
  by (induction ws)
    (auto simp: replace_two_spaces_space_word simp del: replace_two_spaces.simps(1))

lemma replace_two_spaces_words:
  assumes "\<forall>w\<in>set ws. w \<noteq> [] \<and> CHR '' '' \<notin> set w"
  shows "replace_two_spaces (tl (concat (map ((#) (CHR '' '')) ws)))
           = tl (concat (map ((#) (CHR '' '')) ws))"
proof (cases ws)
  case Nil
  then show ?thesis by simp
next
  case (Cons w ws')
  with assms replace_two_spaces_spaced_words[of ws'] show ?thesis
    by (simp add: replace_two_spaces_word)
qed

text \<open>
  Lower-case letters and digits are word characters, no whitespace, and unchanged by
  lower-casing; a text of letters, digits and spaces is unchanged by the substitution.
\<close>

lemma lower_alnum_all:
  "list_all (\<lambda>c. \<not> is_space c \<and> c \<noteq> CHR '' '' \<and> lower_char c = c) (ascii_lowercase @ digits)"
  by code_simp

lemma lower_alnum_char:
  assumes "c \<in> set (ascii_lowercase @ digits)"
  shows "\<not> is_space c" and "c \<noteq> CHR '' ''" and "is_word_char c" and "lower_char c = c"
proof -
  from lower_alnum_all assms have "\<not> is_space c \<and> c \<noteq> CHR '' '' \<and> lower_char c = c"
    unfolding list_all_iff by blast
  then show "\<not> is_space c" and "c \<noteq> CHR '' ''" and "lower_char c = c" by simp_all
  from assms show "is_word_char c" by (auto simp: is_word_char_def)
qed

lemma sub_non_word_ascii:
  assumes "set x \<subseteq> set (ascii_lowercase @ ascii_uppercase @ digits @ '' '')"
  shows "sub_non_word x = x"
proof -
  have "is_word_char c \<or> c = CHR '' ''" if "c \<in> set x" for c
    using that assms by (auto simp: is_word_char_def)
  then show ?thesis by (simp add: sub_non_word_def map_idI)
qed

text \<open>
  The normalised text consists of the stems of the tokens that are not empty, with single
  spaces between them; and \<open>clean\<close> returns such a text as it is when the stemmer returns
  its words as they are.
\<close>

lemma spaced_tokens_form:
  assumes "ts \<noteq> []" and "[] \<notin> set (butlast (tl ts))" and "[] \<in> set ts \<longrightarrow> stem L [] = []"
  shows "\<exists>pre post. (\<forall>c\<in>set pre. is_space c) \<and> (\<forall>c\<in>set post. is_space c)
           \<and> concat (map (\<lambda>t. CHR '' '' # stem L t) ts)
               = pre @ concat (map ((#) (CHR '' '')) (map (stem L) (filter (\<lambda>t. t \<noteq> []) ts)))
                   @ post"
proof -
  have sp: "is_space (CHR '' '')" by (simp add: is_space_def)
  obtain a rest where ts: "ts = a # rest" using assms(1) by (cases ts) auto
  show ?thesis
  proof (cases "rest = []")
    case True
    show ?thesis
    proof (cases "a = []")
      case a: True
      with True ts assms(3) have "concat (map (\<lambda>t. CHR '' '' # stem L t) ts)
          = [CHR '' ''] @ concat (map ((#) (CHR '' '')) (map (stem L) (filter (\<lambda>t. t \<noteq> []) ts))) @ []"
        by simp
      moreover have "\<forall>c\<in>set [CHR '' '']. is_space c" using sp by simp
      ultimately show ?thesis by (metis empty_iff empty_set)
    next
      case a: False
      with True ts have "concat (map (\<lambda>t. CHR '' '' # stem L t) ts)
          = [] @ concat (map ((#) (CHR '' '')) (map (stem L) (filter (\<lambda>t. t \<noteq> []) ts))) @ []"
        by simp
      then show ?thesis by (metis empty_iff empty_set)
    qed
  next
    case False
    define mid where "mid = butlast rest"
    define b where "b = last rest"
    from False have rest: "rest = mid @ [b]" by (simp add: mid_def b_def)
    from assms(2) ts have mid: "[] \<notin> set mid" by (simp add: mid_def)
    then have fmid: "filter (\<lambda>t. t \<noteq> []) mid = mid" by (auto simp: filter_id_conv)
    define pre where "pre = (if a = [] then [CHR '' ''] else [])"
    define post where "post = (if b = [] then [CHR '' ''] else [])"
    have e: "stem L [] = []" if "a = [] \<or> b = []"
      using that assms(3) ts rest by auto
    have "concat (map (\<lambda>t. CHR '' '' # stem L t) ts)
          = pre @ concat (map ((#) (CHR '' '')) (map (stem L) (filter (\<lambda>t. t \<noteq> []) ts))) @ post"
      using e by (auto simp: ts rest fmid pre_def post_def comp_def)
    moreover have "\<forall>c\<in>set pre. is_space c" "\<forall>c\<in>set post. is_space c"
      using sp by (auto simp: pre_def post_def)
    ultimately show ?thesis by blast
  qed
qed

lemma spaced_words_chars:
  "\<forall>w\<in>set ws. set w \<subseteq> A \<Longrightarrow> set (tl (concat (map ((#) c) ws))) \<subseteq> A \<union> {c}"
  by (cases ws) auto

lemma clean_words:
  assumes words: "\<forall>w\<in>set ws. w \<noteq> [] \<and> set w \<subseteq> set (ascii_lowercase @ digits) \<and> stem L w = w"
    and empty: "ws = [] \<longrightarrow> stem L [] = []"
  shows "clean L (tl (concat (map ((#) (CHR '' '')) ws))) = tl (concat (map ((#) (CHR '' '')) ws))"
proof -
  let ?y = "tl (concat (map ((#) (CHR '' '')) ws))"
  have no_space: "\<forall>w\<in>set ws. w \<noteq> [] \<and> (\<forall>c\<in>set w. \<not> is_space c)"
    using words lower_alnum_char(1) by blast
  have no_blank: "\<forall>w\<in>set ws. w \<noteq> [] \<and> CHR '' '' \<notin> set w"
    using words lower_alnum_char(2) by blast
  have chars: "set ?y \<subseteq> set (ascii_lowercase @ digits) \<union> {CHR '' ''}"
    by (rule spaced_words_chars) (use words in blast)
  have sub_y: "sub_non_word ?y = ?y"
  proof -
    have "is_word_char c \<or> c = CHR '' ''" if "c \<in> set ?y" for c
      using that chars lower_alnum_char(3) by blast
    then have "map (\<lambda>c. if is_word_char c \<or> c = CHR '' '' then c else CHR '' '') ?y = ?y"
      by (intro map_idI) simp
    then show ?thesis by (simp only: sub_non_word_def)
  qed
  have replace_y: "replace_two_spaces ?y = ?y"
    using no_blank by (rule replace_two_spaces_words)
  have lower_y: "lower ?y = ?y"
  proof -
    have "lower_char c = c" if "c \<in> set ?y" for c
    proof (cases "c = CHR '' ''")
      case True
      then show ?thesis by (simp add: lower_char_space)
    next
      case False
      with that chars have "c \<in> set (ascii_lowercase @ digits)" by blast
      then show ?thesis by (rule lower_alnum_char(4))
    qed
    then have "map lower_char ?y = ?y" by (intro map_idI)
    then show ?thesis by (simp only: lower_def)
  qed
  show ?thesis
  proof (cases "ws = []")
    case True
    with empty have e: "stem L [] = []" by simp
    have "strip [CHR '' ''] = []" by (simp add: strip_def is_space_def)
    with True e show ?thesis
      by (simp add: clean_eq sub_non_word_def lower_def)
  next
    case False
    then have split: "split_space ?y = ws"
      using no_blank by (intro split_space_words) auto
    have same: "concat (map (\<lambda>t. CHR '' '' # stem L t) ws) = concat (map ((#) (CHR '' '')) ws)"
      by (intro arg_cong[where f = concat] map_cong) (use words in auto)
    have "strip (concat (map ((#) (CHR '' '')) ws)) = ?y"
      using strip_words[OF no_space, of "[]" "[]"] by simp
    then show ?thesis
      by (simp only: clean_eq sub_y replace_y lower_y split same)
  qed
qed

lemma clean_as_words:
  assumes ascii: "set x \<subseteq> set (ascii_lowercase @ ascii_uppercase @ digits @ '' '')"
    and runs: "\<not> has_space_run 3 x"
    and stems: "\<forall>t\<in>set (split_space (lower (replace_two_spaces x))).
                  (stem L t = [] \<longleftrightarrow> t = [])
                  \<and> set (stem L t) \<subseteq> set (ascii_lowercase @ digits)"
  shows "clean L x = tl (concat (map ((#) (CHR '' ''))
           (map (stem L) (filter (\<lambda>t. t \<noteq> []) (split_space (lower (replace_two_spaces x)))))))"
proof -
  define ts where "ts = split_space (lower (replace_two_spaces x))"
  define ws where "ws = map (stem L) (filter (\<lambda>t. t \<noteq> []) ts)"
  have sub: "sub_non_word x = x"
    using ascii by (rule sub_non_word_ascii)
  have nd: "\<not> has_space_run 2 (lower (replace_two_spaces x))"
    using runs
    by (simp add: has_space_run_2_lower replace_two_spaces_no_double del: has_space_run.simps)
  have stems': "\<forall>t\<in>set ts. (stem L t = [] \<longleftrightarrow> t = [])
                  \<and> set (stem L t) \<subseteq> set (ascii_lowercase @ digits)"
    using stems by (simp only: ts_def)
  have "w \<noteq> [] \<and> (\<forall>c\<in>set w. \<not> is_space c)" if "w \<in> set ws" for w
  proof -
    from that obtain t where "t \<in> set ts" "t \<noteq> []" "w = stem L t"
      by (auto simp: ws_def)
    with stems' have "w \<noteq> []" "set w \<subseteq> set (ascii_lowercase @ digits)" by auto
    then show ?thesis using lower_alnum_char(1) by blast
  qed
  then have no_space: "\<forall>w\<in>set ws. w \<noteq> [] \<and> (\<forall>c\<in>set w. \<not> is_space c)" by blast
  have ne: "ts \<noteq> []" unfolding ts_def by (rule split_space_not_Nil)
  have interior: "[] \<notin> set (butlast (tl ts))"
    unfolding ts_def using split_space_interior[OF nd] by blast
  have empty: "[] \<in> set ts \<longrightarrow> stem L [] = []"
    using stems' by blast
  from spaced_tokens_form[OF ne interior empty]
  obtain pre post where "\<forall>c\<in>set pre. is_space c" "\<forall>c\<in>set post. is_space c"
    and "concat (map (\<lambda>t. CHR '' '' # stem L t) ts) = pre @ concat (map ((#) (CHR '' '')) ws) @ post"
    unfolding ws_def by blast
  with strip_words[OF no_space, of pre post]
  have "strip (concat (map (\<lambda>t. CHR '' '' # stem L t) ts)) = tl (concat (map ((#) (CHR '' '')) ws))"
    by simp
  then show ?thesis
    unfolding ts_def ws_def by (simp only: clean_eq sub)
qed

lemma clean_three_spaces: "clean reference_library ''a   b'' = ''a  b''"
  by (simp add: clean_def reference_library_sel string_defs)

lemma clean_two_spaces: "clean reference_library ''a  b'' = ''a b''"
  by (simp add: clean_def reference_library_sel string_defs)

text \<open>
  Claim C6 (the normaliser is idempotent on texts of ASCII letters, digits and spaces)
  fails on the code: the pass over the double spaces turns a run of three spaces into a
  run of two, which survives the splitting into tokens, and the second normalisation turns
  it into one space. The comment in \<open>clean\<close> says that only a single space is allowed
  between words; the single pass misses that on a run of three or more spaces.
\<close>

theorem clean_not_idempotent:
  "clean reference_library (clean reference_library ''a   b'') \<noteq> clean reference_library ''a   b''"
  by (simp add: clean_three_spaces clean_two_spaces)

text \<open>
  What holds of claim C6 in the model: for every text \<open>x\<close> of ASCII letters, digits and
  spaces without a run of three or more spaces, \<open>clean (clean x) = clean x\<close>, when the
  stemmer maps every token of the text to a fixed point of its own that consists of
  lower-case letters and digits and is empty only for the empty token.
\<close>

lemma clean_idempotent:
  assumes ascii: "set x \<subseteq> set (ascii_lowercase @ ascii_uppercase @ digits @ '' '')"
    and runs: "\<not> has_space_run 3 x"
    and stems: "\<forall>t\<in>set (split_space (lower (replace_two_spaces x))).
                  stem L (stem L t) = stem L t \<and> (stem L t = [] \<longleftrightarrow> t = [])
                  \<and> set (stem L t) \<subseteq> set (ascii_lowercase @ digits)"
  shows "clean L (clean L x) = clean L x"
proof -
  define ts where "ts = split_space (lower (replace_two_spaces x))"
  define ws where "ws = map (stem L) (filter (\<lambda>t. t \<noteq> []) ts)"
  have stems': "\<forall>t\<in>set ts. stem L (stem L t) = stem L t \<and> (stem L t = [] \<longleftrightarrow> t = [])
                  \<and> set (stem L t) \<subseteq> set (ascii_lowercase @ digits)"
    using stems by (simp only: ts_def)
  have first: "clean L x = tl (concat (map ((#) (CHR '' '')) ws))"
    unfolding ws_def ts_def by (rule clean_as_words[OF ascii runs]) (use stems in blast)
  have "w \<noteq> [] \<and> set w \<subseteq> set (ascii_lowercase @ digits) \<and> stem L w = w" if "w \<in> set ws" for w
  proof -
    from that obtain t where "t \<in> set ts" "t \<noteq> []" "w = stem L t"
      by (auto simp: ws_def)
    with stems' show ?thesis by auto
  qed
  then have words: "\<forall>w\<in>set ws. w \<noteq> [] \<and> set w \<subseteq> set (ascii_lowercase @ digits) \<and> stem L w = w"
    by blast
  have empty: "ws = [] \<longrightarrow> stem L [] = []"
  proof
    assume "ws = []"
    then have "\<forall>t\<in>set ts. t = []" by (simp add: ws_def filter_empty_conv)
    moreover have "ts \<noteq> []" unfolding ts_def by (rule split_space_not_Nil)
    ultimately have "[] \<in> set ts" by (metis last_in_set)
    with stems' show "stem L [] = []" by blast
  qed
  show ?thesis
    unfolding first by (rule clean_words[OF words empty])
qed

text \<open>
  An instance: a text with upper-case letters, a digit, a double space and a trailing space.
\<close>

lemma clean_idempotent_example:
  "set ''Ab  c1 '' \<subseteq> set (ascii_lowercase @ ascii_uppercase @ digits @ '' '')
   \<and> \<not> has_space_run 3 ''Ab  c1 ''
   \<and> split_space (lower (replace_two_spaces ''Ab  c1 '')) = [''ab'', ''c1'', []]
   \<and> clean reference_library ''Ab  c1 '' = ''ab c1''
   \<and> clean reference_library (clean reference_library ''Ab  c1 '')
       = clean reference_library ''Ab  c1 ''"
proof -
  have ascii: "set ''Ab  c1 '' \<subseteq> set (ascii_lowercase @ ascii_uppercase @ digits @ '' '')"
    by (simp add: ascii_lowercase_def ascii_uppercase_def digits_def)
  have runs: "\<not> has_space_run 3 ''Ab  c1 ''"
    by (simp add: has_space_run_3_simps del: has_space_run.simps)
  have tokens: "split_space (lower (replace_two_spaces ''Ab  c1 '')) = [''ab'', ''c1'', []]"
    by (simp add: string_defs)
  have stems: "\<forall>t\<in>set (split_space (lower (replace_two_spaces ''Ab  c1 ''))).
      stem reference_library (stem reference_library t) = stem reference_library t
      \<and> (stem reference_library t = [] \<longleftrightarrow> t = [])
      \<and> set (stem reference_library t) \<subseteq> set (ascii_lowercase @ digits)"
    unfolding tokens
    by (simp add: reference_library_sel ascii_lowercase_def digits_def)
  have result: "clean reference_library ''Ab  c1 '' = ''ab c1''"
    by (simp add: clean_def reference_library_sel string_defs)
  from clean_idempotent[OF ascii runs stems] ascii runs tokens result
  show ?thesis by blast
qed

subsection \<open>The alphabet of the normalised text\<close>

text \<open>
  What holds of claim C2 in the model: when the text has no underscore and the stemmer
  maps tokens of lower-case letters and digits to such tokens, the normalised text
  consists of lower-case letters, digits and spaces. Every other character that is no
  letter and no digit is replaced by a space, upper-case letters are lowered, and the
  stemmer sees tokens of lower-case letters and digits only.
\<close>

lemma set_strip: "set (strip s) \<subseteq> set s"
  unfolding strip_def by (auto dest!: set_dropWhileD)

lemma set_replace_two_spaces: "set (replace_two_spaces s) \<subseteq> set s"
  by (induction s rule: replace_two_spaces.induct) auto

lemma set_split_space: "t \<in> set (split_space s) \<Longrightarrow> set t \<subseteq> set s - {CHR '' ''}"
proof (induction s arbitrary: t)
  case Nil
  then show ?case by simp
next
  case (Cons c cs)
  obtain h r where hr: "split_space cs = h # r"
    using split_space_not_Nil[of cs] by (cases "split_space cs") auto
  show ?case
  proof (cases "c = CHR '' ''")
    case True
    with Cons show ?thesis by auto
  next
    case False
    with Cons.prems hr have "t = c # h \<or> t \<in> set r" by simp
    then show ?thesis
    proof
      assume "t = c # h"
      moreover have "set h \<subseteq> set cs - {CHR '' ''}" using Cons.IH[of h] hr by simp
      ultimately show ?thesis using False by auto
    next
      assume "t \<in> set r"
      then have "set t \<subseteq> set cs - {CHR '' ''}" using Cons.IH[of t] hr by simp
      then show ?thesis by auto
    qed
  qed
qed

lemma lower_char_alnum_all:
  "list_all (\<lambda>c. lower_char c \<in> set (ascii_lowercase @ digits))
     (ascii_lowercase @ ascii_uppercase @ digits)"
  by code_simp

lemma lower_char_alnum:
  "c \<in> set (ascii_lowercase @ ascii_uppercase @ digits) \<Longrightarrow>
     lower_char c \<in> set (ascii_lowercase @ digits)"
  using lower_char_alnum_all unfolding list_all_iff by blast

lemma lower_char_of_space: "lower_char (CHR '' '') = CHR '' ''"
  by (simp add: lower_char_space)

lemma clean_alphabet:
  assumes underscore: "CHR ''_'' \<notin> set x"
    and stems: "\<forall>t. set t \<subseteq> set (ascii_lowercase @ digits)
                  \<longrightarrow> set (stem L t) \<subseteq> set (ascii_lowercase @ digits)"
  shows "set (clean L x) \<subseteq> set (ascii_lowercase @ digits @ '' '')"
proof -
  define z where "z = lower (replace_two_spaces (sub_non_word x))"
  have "c \<in> set (ascii_lowercase @ ascii_uppercase @ digits) \<or> c = CHR '' ''"
    if "c \<in> set (sub_non_word x)" for c
    using that underscore by (auto simp: sub_non_word_def is_word_char_def split: if_splits)
  then have "c \<in> set (ascii_lowercase @ ascii_uppercase @ digits) \<or> c = CHR '' ''"
    if "c \<in> set (replace_two_spaces (sub_non_word x))" for c
    using that set_replace_two_spaces by blast
  then have z: "c \<in> set (ascii_lowercase @ digits) \<or> c = CHR '' ''" if "c \<in> set z" for c
    using that lower_char_alnum lower_char_of_space unfolding z_def lower_def by auto
  have "set (stem L t) \<subseteq> set (ascii_lowercase @ digits)" if "t \<in> set (split_space z)" for t
  proof -
    from set_split_space[OF that] z have "set t \<subseteq> set (ascii_lowercase @ digits)" by blast
    with stems show ?thesis by blast
  qed
  then have "set (concat (map (\<lambda>t. CHR '' '' # stem L t) (split_space z)))
               \<subseteq> set (ascii_lowercase @ digits @ '' '')"
    by auto
  then show ?thesis
    using set_strip unfolding clean_eq z_def by blast
qed

section \<open>The template loader\<close>

text \<open>
  Reading a file and joining its lines again gives the text of the file, unless the file is
  empty: then there is no line to join.
\<close>

lemma concat_readlines: "concat (readlines s) = s"
  by (induction s) (auto split: list.splits)

lemma readlines_empty: "readlines s = [] \<longleftrightarrow> s = []"
  by (cases s) (auto split: list.splits)

lemma foldl_append_concat: "foldl (\<lambda>s1 s2. s1 @ s2) x xs = x @ concat xs"
  by (induction xs arbitrary: x) auto

lemma reduce_readlines:
  "reduce (\<lambda>s1 s2. s1 @ s2) (readlines s) = (if s = [] then Inl TypeError else Inr s)"
proof (cases "readlines s")
  case Nil
  then show ?thesis by (simp add: readlines_empty)
next
  case (Cons l ls)
  then have "s \<noteq> []" using readlines_empty by fastforce
  moreover have "l @ concat ls = s" using concat_readlines[of s] Cons by simp
  ultimately show ?thesis using Cons by (simp add: foldl_append_concat)
qed

lemma prepare_license_file_eq:
  "prepare_license_file L fs filename =
     (case read_text fs filename of Inl e \<Rightarrow> Inl e
      | Inr text \<Rightarrow> if text = [] then Inl TypeError else Inr (clean L text))"
  by (simp add: prepare_license_file_def reduce_readlines split: sum.splits)

text \<open>
  The two sequences that the loader returns are parallel. When it returns, there is one
  name and one text for every \<^verbatim>\<open>.txt\<close> entry of the listing, in the order of the listing:
  the name is the file name without its last four characters, in upper case and with
  spaces for hyphens, and the text is the cleaned text of the file, which is not empty.
  Conversely the loader returns when every such file can be read and is not empty.
\<close>

lemma load_loop_length:
  "load_loop L fs fns (names, licenses) = Inr (names', licenses') \<Longrightarrow>
     length names = length licenses \<Longrightarrow> length names' = length licenses'"
  by (induction fns arbitrary: names licenses) (auto split: sum.splits)

lemma load_license_templates_length:
  "load_license_templates L fs = Inr (names, licenses) \<Longrightarrow> length names = length licenses"
  by (auto simp: load_license_templates_def split: sum.splits dest: load_loop_length)



lemma load_loop_readable:
  assumes "\<forall>lic_fn\<in>set fns. \<exists>text. read_text fs (TEMPLATES_DIR @ lic_fn) = Inr text \<and> text \<noteq> []"
  shows "load_loop L fs fns (ns, ls) =
     Inr (ns @ map (\<lambda>lic_fn. sub_hyphen (upper (take (length lic_fn - 4) lic_fn))) fns,
          ls @ map (\<lambda>lic_fn. clean L (projr (read_text fs (TEMPLATES_DIR @ lic_fn)))) fns)"
  using assms
  by (induction fns arbitrary: ns ls) (auto simp: prepare_license_file_eq)

lemma load_license_templates_readable:
  assumes "listdir fs TEMPLATES_DIR = Inr entries"
    and "\<forall>lic_fn\<in>set entries. endswith lic_fn ''.txt'' \<longrightarrow>
           (\<exists>content. read_text fs (TEMPLATES_DIR @ lic_fn) = Inr content \<and> content \<noteq> [])"
  shows "load_license_templates L fs =
     Inr (map (\<lambda>lic_fn. sub_hyphen (upper (take (length lic_fn - 4) lic_fn)))
            (filter (\<lambda>name. endswith name ''.txt'') entries),
          map (\<lambda>lic_fn. clean L (projr (read_text fs (TEMPLATES_DIR @ lic_fn))))
            (filter (\<lambda>name. endswith name ''.txt'') entries))"
  using assms load_loop_readable[of "filter (\<lambda>name. endswith name ''.txt'') entries" fs L "[]" "[]"]
  by (simp add: load_license_templates_def)

lemma load_loop_cong:
  assumes "\<forall>name\<in>set fns. read_text fs (TEMPLATES_DIR @ name) = read_text fs' (TEMPLATES_DIR @ name)"
  shows "load_loop L fs fns acc = load_loop L fs' fns acc"
  using assms
proof (induction fns arbitrary: acc)
  case Nil
  then show ?case by (cases acc) simp
next
  case (Cons a fns)
  then show ?case by (cases acc) (simp add: prepare_license_file_def split: sum.splits)
qed

text \<open>
  Claim C7 (the loader returns one name and one normalised text for every \<^verbatim>\<open>.txt\<close> entry of
  a readable directory) fails on the code for an empty template file: \<^verbatim>\<open>readlines\<close> returns
  no line, and \<^verbatim>\<open>reduce\<close> without an initial value raises \<^verbatim>\<open>TypeError\<close> on the empty
  sequence, where the claim (and the docstring of \<open>prepare_license_file\<close>) promise the
  cleaned text of the file, here the empty string.
\<close>

theorem load_license_templates_empty_file:
  "load_license_templates reference_library empty_template_file = Inl TypeError"
  by (simp add: load_license_templates_def empty_template_file_def prepare_license_file_def
        string_defs)

section \<open>The reference vectorizer and its arithmetic\<close>

text \<open>
  The vectorizer of the reference instance raises on an empty vocabulary and otherwise
  returns one row for every document. The row of a document without a token is zero, the
  row of a document with a token has the square sum 1, and every row has one of the two.
\<close>

lemma tfidf_fit_transform_rows:
  "tfidf_fit_transform sw docs =
     (if vocabulary sw docs = [] then Inl ValueError
      else Inr (map (tfidf_row sw docs) (map (tokenize sw) docs)))"
  by (simp add: tfidf_fit_transform_def vocabulary_def tfidf_row_def Let_def)

lemma tokenize_Nil: "tokenize sw [] = []"
  by (simp add: tokenize_def lower_def)


lemma sum_squares_nonneg: "0 \<le> sum_list (map2 (*) w w)" for w :: "real list"
  by (induction w) auto


lemma product_zero_left:
  "\<forall>x\<in>set v. x = 0 \<Longrightarrow> sum_list (map2 (*) v w) = 0" for v :: "real list"
proof (induction v arbitrary: w)
  case Nil
  then show ?case by simp
next
  case (Cons x v)
  then show ?case by (cases w) auto
qed





lemma l2_normalize_zero_row: "l2_normalize (map (\<lambda>t. 0) vocab) = map (\<lambda>t. 0) vocab"
proof -
  have "sum_list (map (\<lambda>x. x * x) (map (\<lambda>t. 0::real) vocab)) = 0"
    by (induction vocab) auto
  then show ?thesis by (simp add: l2_normalize_def)
qed

lemma tfidf_row_Nil: "tfidf_row sw docs [] = map (\<lambda>t. 0) (vocabulary sw docs)"
  by (simp add: tfidf_row_def l2_normalize_zero_row)






text \<open>
  With the reference arithmetic the cosine is always computed: the root is taken of a sum
  of squares, and the quotient of NumPy does not raise. For a zero row of the candidate it
  is not-a-number; for a candidate row of square sum 1 it is not-a-number or at most 1, and
  it is 1 for the row of the candidate itself.
\<close>

lemma numpy_div_returns: "\<exists>c. numpy_div a b = Inr c"
  by (cases a; cases b) auto

lemma cosine_similarity_reference:
  assumes "reference_arithmetic sw L"
  shows "cosine_similarity L v w
           = numpy_div (Num (sum_list (map2 (*) v w)))
               (Num (sqrt (sum_list (map2 (*) v v)) * sqrt (sum_list (map2 (*) w w))))"
  using assms sum_squares_nonneg[of v] sum_squares_nonneg[of w]
  by (simp add: reference_arithmetic_def cosine_similarity_def dot_def exact_row_product_def
        not_less[symmetric])

lemma cosine_zero_candidate:
  assumes "reference_arithmetic sw L" and "\<forall>x\<in>set v. x = 0"
  shows "cosine_similarity L v w = Inr NaN"
proof -
  from assms(2) have "sum_list (map2 (*) v w) = 0" "sum_list (map2 (*) v v) = 0"
    by (simp_all add: product_zero_left)
  then show ?thesis by (simp add: cosine_similarity_reference[OF assms(1)])
qed



section \<open>The classifier\<close>

text \<open>
  Claim C10: the classifier never returns a label outside the loaded corpus. The index of
  the most similar license is the initial one or one of the indices the loop ran through;
  so on a corpus of at least one template the loop over \<open>range(0, len(licenses))\<close>, started
  at index 0, ends at an index within the names, where \<^verbatim>\<open>names[index]\<close> does not raise; and
  a label that \<open>detect_license\<close> returns is one of the names that the loader returned.
\<close>

theorem detect_license_index_in_range:
  assumes load: "load_license_templates L fs = Inr (names, licenses)"
    and nonempty: "licenses \<noteq> []"
  shows "(search_loop L vd tfidf xs (idx0, mx0) = Inr (idx, mx) \<longrightarrow> idx = idx0 \<or> idx \<in> set xs)
       \<and> (search_loop L vd' tfidf' [0..<length licenses] (0, Num (- 1)) = Inr (idx', mx')
            \<longrightarrow> idx' < length names \<and> getitem names idx' = Inr (names ! idx'))
       \<and> (detect_license L fs document cleaned = Inr label \<longrightarrow> label \<in> set names)"
proof (intro conjI impI)
  assume "search_loop L vd tfidf xs (idx0, mx0) = Inr (idx, mx)"
  then show "idx = idx0 \<or> idx \<in> set xs" by (rule search_loop_index)
next
  have len: "length names = length licenses"
    using load by (rule load_license_templates_length)
  assume "search_loop L vd' tfidf' [0..<length licenses] (0, Num (- 1)) = Inr (idx', mx')"
  then have "idx' = 0 \<or> idx' \<in> set [0..<length licenses]" by (rule search_loop_index)
  with nonempty len show "idx' < length names" by auto
  then show "getitem names idx' = Inr (names ! idx')" by (simp add: getitem_def)
next
  have len: "length names = length licenses"
    using load by (rule load_license_templates_length)
  assume "detect_license L fs document cleaned = Inr label"
  with load obtain vd tfidf idx mx
    where loop: "search_loop L vd tfidf [0..<length licenses] (0, Num (- 1)) = Inr (idx, mx)"
      and label: "getitem names idx = Inr label"
    by (auto simp: detect_license_def Let_def split: sum.splits prod.splits)
  from loop have "idx = 0 \<or> idx \<in> set [0..<length licenses]" by (rule search_loop_index)
  with nonempty len have "idx < length names" by auto
  with label show "label \<in> set names" by (auto simp: getitem_def)
qed

text \<open>
  Witness for C10: the directory of two templates, where the loop ends at index 0 and the
  call returns the first name.
\<close>

theorem detect_license_index_in_range_witness:
  "load_license_templates reference_library two_templates
     = Inr ([''CC BY'', ''QT''], [''cc'', ''cc''])
   \<and> [''cc'', ''cc''] \<noteq> ([] :: string list)
   \<and> search_loop reference_library [1] [[1], [1], [1]] [0..<length [''cc'', ''cc'']]
        (0, Num (- 1)) = Inr (0, Num 1)
   \<and> 0 < length [''CC BY'', ''QT'']
   \<and> getitem [''CC BY'', ''QT''] 0 = Inr ([''CC BY'', ''QT''] ! 0)
   \<and> detect_license reference_library two_templates ''cc'' False = Inr ''CC BY''
   \<and> ''CC BY'' \<in> set [''CC BY'', ''QT'']"
proof -
  have ne: "[''cc'', ''cc''] \<noteq> ([] :: string list)" by simp
  note range = detect_license_index_in_range[OF load_two_templates ne,
      of "[1]" "[[1], [1], [1]]" "[]" 0 "Num (- 1)" 0 "Num (- 1)"
         "[1]" "[[1], [1], [1]]" 0 "Num 1" "''cc''" False "''CC BY''"]
  from range loop_two_templates
  have "0 < length [''CC BY'', ''QT''] \<and> getitem [''CC BY'', ''QT''] 0 = Inr ([''CC BY'', ''QT''] ! 0)"
    by blast
  moreover from range detect_two_templates have "''CC BY'' \<in> set [''CC BY'', ''QT'']"
    by blast
  ultimately show ?thesis
    using load_two_templates loop_two_templates detect_two_templates ne by blast
qed

text \<open>
  Claim C4: ties are broken by the lowest index. Let the templates be loaded, the
  vectorizer return one row for every document and \<open>score j\<close> be the similarity of
  template \<open>j\<close> to the candidate. If template \<open>i\<close> attains the maximal similarity (no score
  is greater, and its own is above the initial value \<open>-1\<close> of the running maximum, as every
  cosine of rows without a negative weight is) and no template before \<open>i\<close> has the same
  score, then \<open>detect_license\<close> returns the name of template \<open>i\<close>, however many later
  templates have the same score: the comparison is strict, so an equal score never replaces
  the index.
\<close>

theorem detect_license_tie_break:
  assumes load: "load_license_templates L fs = Inr (names, licenses)"
    and fit: "fit_transform L (licenses @ [if cleaned then document else clean L document])
                = Inr tfidf"
    and rows: "length tfidf = Suc (length licenses)"
    and scores: "\<forall>j<length licenses.
                   cosine_similarity L (last tfidf) (tfidf ! j) = Inr (score j)"
    and i: "i < length licenses"
    and above: "float_gt (score i) (Num (- 1))"
    and maximal: "\<forall>j<length licenses. \<not> float_gt (score j) (score i)"
    and first: "\<forall>j<i. score j \<noteq> score i"
  shows "detect_license L fs document cleaned = Inr (names ! i)"
proof -
  have "search_loop L (last tfidf) tfidf [0..<length licenses] (0, Num (- 1)) = Inr (i, score i)"
    by (rule search_loop_first_maximal) (use scores rows i above maximal first in auto)
  moreover have "length names = length licenses"
    using load by (rule load_license_templates_length)
  moreover have "tfidf \<noteq> []" using rows by auto
  ultimately show ?thesis
    using load fit i by (simp add: detect_license_def getitem_def getitem_last_def)
qed

text \<open>
  Witness for C4: two templates with the same text, so that both have the similarity 1 to
  the candidate; the name of the first one is returned.
\<close>

theorem detect_license_tie_break_witness:
  "load_license_templates reference_library two_templates
        = Inr ([''CC BY'', ''QT''], [''cc'', ''cc''])
   \<and> fit_transform reference_library ([''cc'', ''cc''] @ [clean reference_library ''cc''])
        = Inr [[1], [1], [1]]
   \<and> cosine_similarity reference_library (last [[1], [1], [1]]) ([[1], [1], [1]] ! 0)
        = Inr (Num 1)
   \<and> cosine_similarity reference_library (last [[1], [1], [1]]) ([[1], [1], [1]] ! 1)
        = Inr (Num 1)
   \<and> float_gt (Num 1) (Num (- 1))
   \<and> \<not> float_gt (Num 1) (Num 1)
   \<and> detect_license reference_library two_templates ''cc'' False = Inr ''CC BY''"
proof -
  have fit: "fit_transform reference_library
               ([''cc'', ''cc''] @ [if False then ''cc'' else clean reference_library ''cc''])
               = Inr [[1], [1], [1]]"
    by (simp add: reference_library_sel fit_three_cc clean_cc)
  have rows: "length [[1], [1], [1::real]] = Suc (length [''cc'', ''cc''])" by simp
  have scores: "\<forall>j<length [''cc'', ''cc''].
               cosine_similarity reference_library (last [[1], [1], [1]]) ([[1], [1], [1]] ! j)
                 = Inr ((\<lambda>j. Num 1) j)"
    by (simp add: less_Suc_eq cosine_unit)
  have i: "0 < length [''cc'', ''cc'']" by simp
  have above: "float_gt ((\<lambda>j. Num 1) (0::nat)) (Num (- 1))" by simp
  have maximal: "\<forall>j<length [''cc'', ''cc'']. \<not> float_gt ((\<lambda>j. Num 1) j) ((\<lambda>j. Num 1) (0::nat))"
    by simp
  have first: "\<forall>j<0::nat. (\<lambda>j. Num 1) j \<noteq> (\<lambda>j. Num 1) (0::nat)" by simp
  from detect_license_tie_break[OF load_two_templates fit rows scores i above maximal first]
  have "detect_license reference_library two_templates ''cc'' False
          = Inr ([''CC BY'', ''QT''] ! 0)" .
  then show ?thesis
    using fit by (simp add: load_two_templates cosine_unit)
qed

text \<open>
  Claim C1 (a candidate whose normalised text is empty still gets a label, and the call
  never raises) fails on the code as it is stated: when no template has a token either, the
  vocabulary is empty and the vectorizer raises \<^verbatim>\<open>ValueError\<close>, which \<open>detect_license\<close> does
  not catch. Here the only template is a lone hyphen.
\<close>

theorem detect_license_empty_vocabulary:
  "detect_license reference_library blank_template [] False = Inl ValueError"
  by (simp add: detect_license_def load_blank_template clean_empty reference_library_sel
        fit_no_token)

text \<open>
  Claim C1 as amended: for every candidate whose normalised text is empty and every loaded
  corpus in which some template has a token, \<open>detect_license\<close> returns the label of the
  first template and does not raise. The row of the candidate is zero, so every similarity
  is the quotient \<open>0 / 0\<close>, which is not-a-number with NumPy's floats; no comparison with
  the running maximum succeeds and the index stays 0. The vectorizer and the arithmetic are
  those of the reference instance; the stemmer is any.
\<close>

theorem detect_license_empty_candidate_first_label:
  assumes lib: "reference_arithmetic sw L"
    and empty: "(if cleaned then document else clean L document) = []"
    and load: "load_license_templates L fs = Inr (names, licenses)"
    and token: "concat (map (tokenize sw) licenses) \<noteq> []"
  shows "names \<noteq> [] \<and> detect_license L fs document cleaned = Inr (names ! 0)"
proof -
  define docs where "docs = licenses @ [[]]"
  define tfidf where "tfidf = map (tfidf_row sw docs) (map (tokenize sw) docs)"
  have len: "length names = length licenses"
    using load by (rule load_license_templates_length)
  from token have nonempty: "licenses \<noteq> []" by auto
  from token have "vocabulary sw docs \<noteq> []"
    by (simp add: vocabulary_def docs_def)
  then have "tfidf_fit_transform sw docs = Inr tfidf"
    by (simp add: tfidf_fit_transform_rows tfidf_def)
  with lib have fit: "fit_transform L (licenses @ [[]]) = Inr tfidf"
    by (simp add: reference_arithmetic_def docs_def)
  have rows: "length tfidf = Suc (length licenses)"
    by (simp add: tfidf_def docs_def)
  have "last tfidf = tfidf_row sw docs []"
    by (simp add: tfidf_def docs_def last_map tokenize_Nil)
  then have zero: "\<forall>x\<in>set (last tfidf). x = 0"
    by (simp add: tfidf_row_Nil)
  have "search_loop L (last tfidf) tfidf [0..<length licenses] (0, Num (- 1))
          = Inr (0, Num (- 1))"
  proof (rule search_loop_keeps, intro ballI conjI)
    fix j assume "j \<in> set [0..<length licenses]"
    then show "j < length tfidf" using rows by simp
    have "cosine_similarity L (last tfidf) (tfidf ! j) = Inr NaN"
      using lib zero by (rule cosine_zero_candidate)
    then show "\<exists>c. cosine_similarity L (last tfidf) (tfidf ! j) = Inr c
                 \<and> \<not> float_gt c (Num (- 1))"
      by simp
  qed
  moreover have "tfidf \<noteq> []" using rows by auto
  ultimately have "detect_license L fs document cleaned = Inr (names ! 0)"
    using load fit empty nonempty len
    by (simp add: detect_license_def getitem_def getitem_last_def)
  with nonempty len show ?thesis by auto
qed

text \<open>
  Witness for C1 as amended: the directory of two templates and the empty candidate.
\<close>

theorem detect_license_empty_candidate_first_label_witness:
  "reference_arithmetic stop_words_sample reference_library
   \<and> clean reference_library [] = []
   \<and> load_license_templates reference_library two_templates
        = Inr ([''CC BY'', ''QT''], [''cc'', ''cc''])
   \<and> concat (map (tokenize stop_words_sample) [''cc'', ''cc'']) \<noteq> []
   \<and> [''CC BY'', ''QT''] \<noteq> ([] :: string list)
   \<and> detect_license reference_library two_templates [] False = Inr ''CC BY''"
proof -
  have empty: "(if False then [] else clean reference_library []) = []"
    by (simp add: clean_empty)
  have token: "concat (map (tokenize stop_words_sample) [''cc'', ''cc'']) \<noteq> []"
    by (simp add: tokenize_def string_defs stop_words_sample_def)
  from detect_license_empty_candidate_first_label[OF reference_library_arithmetic empty
         load_two_templates token]
  have "detect_license reference_library two_templates [] False = Inr ([''CC BY'', ''QT''] ! 0)"
    by blast
  then show ?thesis
    using reference_library_arithmetic token by (simp add: clean_empty load_two_templates)
qed




text \<open>
  Claim C8 (a missing directory or a directory without a template makes the call fail with
  a configuration error of its own kind) fails on the code: the program has no error kind of
  its own. On a directory without a \<^verbatim>\<open>.txt\<close> entry the call fails with the \<^verbatim>\<open>IndexError\<close> of
  \<^verbatim>\<open>names[0]\<close>.
\<close>

theorem detect_license_no_templates:
  "detect_license reference_library no_templates ''cc'' False = Inl IndexError"
  by (simp add: detect_license_def load_no_templates clean_cc reference_library_sel fit_one_cc
        getitem_def getitem_last_def)

text \<open>
  Claim C8 as amended: when the listing of the template directory raises, the call fails
  with that exception; when the listing has no \<^verbatim>\<open>.txt\<close> entry, the call fails as well, with
  \<^verbatim>\<open>IndexError\<close> or with the exception that the vectorizer raised on the candidate alone. In
  neither case does it return a label.
\<close>

theorem detect_license_no_configuration_error:
  "(listdir fs TEMPLATES_DIR = Inl e \<longrightarrow> detect_license L fs document cleaned = Inl e)
   \<and> (listdir fs TEMPLATES_DIR = Inr entries
        \<and> filter (\<lambda>name. endswith name ''.txt'') entries = []
      \<longrightarrow> (\<exists>e'. detect_license L fs document cleaned = Inl e'
                \<and> (e' = IndexError
                    \<or> fit_transform L [if cleaned then document else clean L document]
                        = Inl e')))"
  by (auto simp: detect_license_def load_license_templates_def getitem_def getitem_last_def
        split: sum.splits)

text \<open>
  Witness for C8 as amended: a file system without the directory, and a directory whose
  only entry is no template.
\<close>

theorem detect_license_no_configuration_error_witness:
  "listdir missing_directory TEMPLATES_DIR = Inl OSError
   \<and> detect_license reference_library missing_directory ''cc'' False = Inl OSError
   \<and> listdir no_templates TEMPLATES_DIR = Inr [''README'']
   \<and> filter (\<lambda>name. endswith name ''.txt'') [''README''] = []
   \<and> (\<exists>e'. detect_license reference_library no_templates ''cc'' False = Inl e'
          \<and> (e' = IndexError
              \<or> fit_transform reference_library
                   [if False then ''cc'' else clean reference_library ''cc''] = Inl e'))"
proof -
  have m: "listdir missing_directory TEMPLATES_DIR = Inl OSError"
    by (simp add: missing_directory_def)
  have n: "listdir no_templates TEMPLATES_DIR = Inr [''README'']"
    by (simp add: no_templates_def TEMPLATES_DIR_def)
  have f: "filter (\<lambda>name. endswith name ''.txt'') [''README''] = []"
    by (simp add: endswith_def)
  from detect_license_no_configuration_error[of missing_directory OSError reference_library
         "''cc''" False] m
  have 1: "detect_license reference_library missing_directory ''cc'' False = Inl OSError"
    by blast
  from detect_license_no_configuration_error[of no_templates _ reference_library
         "''cc''" False "[''README'']"] n f
  have 2: "\<exists>e'. detect_license reference_library no_templates ''cc'' False = Inl e'
          \<and> (e' = IndexError
              \<or> fit_transform reference_library
                   [if False then ''cc'' else clean reference_library ''cc''] = Inl e')"
    by blast
  from m n f 1 2 show ?thesis by blast
qed

text \<open>
  Claim C9: the outcome of \<open>detect_license\<close> is determined by the candidate, the flag, the
  listing of the template directory and the texts of the listed \<^verbatim>\<open>.txt\<close> files. Two calls on
  file systems that agree on these, in particular two calls on the same file system, have
  the same outcome: no other file and no state kept between calls has an influence.
\<close>

theorem detect_license_deterministic:
  assumes "listdir fs TEMPLATES_DIR = listdir fs' TEMPLATES_DIR"
    and "\<forall>entries. listdir fs TEMPLATES_DIR = Inr entries \<longrightarrow>
           (\<forall>name\<in>set entries. endswith name ''.txt'' \<longrightarrow>
              read_text fs (TEMPLATES_DIR @ name) = read_text fs' (TEMPLATES_DIR @ name))"
  shows "detect_license L fs document cleaned = detect_license L fs' document cleaned"
proof -
  have "load_license_templates L fs = load_license_templates L fs'"
  proof (cases "listdir fs TEMPLATES_DIR")
    case (Inl e)
    moreover from Inl assms(1) have "listdir fs' TEMPLATES_DIR = Inl e" by simp
    ultimately show ?thesis by (simp add: load_license_templates_def)
  next
    case (Inr entries)
    with assms(2) have "load_loop L fs (filter (\<lambda>name. endswith name ''.txt'') entries) ([], [])
        = load_loop L fs' (filter (\<lambda>name. endswith name ''.txt'') entries) ([], [])"
      by (intro load_loop_cong) auto
    moreover from Inr assms(1) have "listdir fs' TEMPLATES_DIR = Inr entries" by simp
    ultimately show ?thesis using Inr by (simp add: load_license_templates_def)
  qed
  then show ?thesis by (simp add: detect_license_def)
qed

text \<open>
  Witness for C9: two file systems with the same template directory that differ elsewhere.
\<close>

theorem detect_license_deterministic_witness:
  "listdir two_templates TEMPLATES_DIR = listdir two_templates_elsewhere TEMPLATES_DIR
   \<and> read_text two_templates (TEMPLATES_DIR @ ''cc-by.txt'')
       = read_text two_templates_elsewhere (TEMPLATES_DIR @ ''cc-by.txt'')
   \<and> read_text two_templates (TEMPLATES_DIR @ ''qt.txt'')
       = read_text two_templates_elsewhere (TEMPLATES_DIR @ ''qt.txt'')
   \<and> read_text two_templates ''README'' \<noteq> read_text two_templates_elsewhere ''README''
   \<and> detect_license reference_library two_templates ''cc'' False
       = detect_license reference_library two_templates_elsewhere ''cc'' False"
proof -
  have l: "listdir two_templates TEMPLATES_DIR = listdir two_templates_elsewhere TEMPLATES_DIR"
    by (simp add: two_templates_def two_templates_elsewhere_def TEMPLATES_DIR_def)
  have r: "\<forall>entries. listdir two_templates TEMPLATES_DIR = Inr entries \<longrightarrow>
           (\<forall>name\<in>set entries. endswith name ''.txt'' \<longrightarrow>
              read_text two_templates (TEMPLATES_DIR @ name)
                = read_text two_templates_elsewhere (TEMPLATES_DIR @ name))"
    by (auto simp: two_templates_def two_templates_elsewhere_def TEMPLATES_DIR_def endswith_def)
  from detect_license_deterministic[OF l r]
  have "detect_license reference_library two_templates ''cc'' False
       = detect_license reference_library two_templates_elsewhere ''cc'' False" .
  then show ?thesis
    by (simp add: two_templates_def two_templates_elsewhere_def TEMPLATES_DIR_def)
qed

end
